theory Spec2Isabelle
  imports Complex_Main
begin

section \<open>The in-memory Sliding Window Log rate limiter\<close>

text \<open>
  The class \<open>RateLimiter\<close> keeps, for every user id, an array of the timestamps of the
  requests it admitted. Every JavaScript \<open>number\<close> is a double. A number that holds a time
  (a timestamp, the window size) is modelled as the \<^typ>\<open>real\<close> it denotes, and the result
  of every subtraction the source makes is rounded to the nearest double. The limit
  \<open>maxRequestsPerHour\<close> is a number of requests and is modelled as an \<^typ>\<open>int\<close>; the
  constructor checks nothing, so it may be zero or negative. Infinities and \<open>NaN\<close> are not
  modelled.

  Every method that reads the clock (\<open>Date.now() / 1000\<close>) takes the value read as the
  explicit argument \<open>currentTime\<close>. The map \<open>userLogs\<close> is private and its arrays never
  leave the class, so mutating an array in place (\<open>shift\<close>, \<open>push\<close>) is the same as
  storing the new list under the key.
\<close>

record RateLimiter =
  userLogs :: "string \<rightharpoonup> real list"
  maxRequestsPerHour :: int
  windowSizeSeconds :: real

record RateLimitStats =
  currentCount :: nat
  remaining :: int
  limit :: int
  statsWindowSizeSeconds :: real

subsection \<open>Double arithmetic\<close>

text \<open>
  The finite doubles (binary64) are the reals \<open>m * 2 ^ e\<close> with an integer \<open>m\<close> of at most
  53 bits and an exponent that keeps the leading bit between \<open>2 ^ - 1022\<close> and
  \<open>2 ^ 1023\<close>; below \<open>2 ^ - 1022\<close> they are spaced \<open>2 ^ - 1074\<close> apart.

  \<open>binade a\<close> is the power of two \<open>p\<close> with \<open>p \<le> a < 2 * p\<close>, searched from 1 by doubling
  (at most up to \<open>2 ^ 1023\<close>) or by halving (at most down to \<open>2 ^ - 1022\<close>). The doubles
  around \<open>x\<close> are spaced \<open>binade \<bar>x\<bar> / 2 ^ 52\<close> apart, and \<open>roundDouble x\<close> is the multiple
  of that spacing nearest to \<open>x\<close>, the one with the even multiplier when two are equally
  near: the double that an arithmetic operation with the exact result \<open>x\<close> returns. A
  result beyond the largest double, where the source has \<open>Infinity\<close>, is rounded like
  one in the top binade.
\<close>

fun binadeUp :: "nat \<Rightarrow> real \<Rightarrow> real \<Rightarrow> real" where
  "binadeUp 0 p a = p"
| "binadeUp (Suc n) p a = (if 2 * p \<le> a then binadeUp n (2 * p) a else p)"

fun binadeDown :: "nat \<Rightarrow> real \<Rightarrow> real \<Rightarrow> real" where
  "binadeDown 0 p a = p"
| "binadeDown (Suc n) p a = (if a < p then binadeDown n (p / 2) a else p)"

definition binade :: "real \<Rightarrow> real" where
  "binade a = (if 1 \<le> a then binadeUp 1023 1 a else binadeDown 1022 1 a)"

definition roundHalfEven :: "real \<Rightarrow> int" where
  "roundHalfEven q =
     (let f = \<lfloor>q\<rfloor>
      in if q - of_int f < 1 / 2 then f
         else if 1 / 2 < q - of_int f then f + 1
         else if even f then f else f + 1)"

definition roundDouble :: "real \<Rightarrow> real" where
  "roundDouble x = (let ulp = binade \<bar>x\<bar> / 2 ^ 52 in of_int (roundHalfEven (x / ulp)) * ulp)"

text \<open>
  \<open>currentTime - this.windowSizeSeconds\<close>, the start of the window, as the three methods
  compute it.
\<close>

definition windowStart :: "real \<Rightarrow> real \<Rightarrow> real" where
  "windowStart currentTime windowSize = roundDouble (currentTime - windowSize)"

text \<open>
  \<open>this.maxRequestsPerHour - currentCount\<close>, again a subtraction of doubles. The limit of
  the source is a double. An \<^typ>\<open>int\<close> that is no double cannot occur there; for such a
  limit the model keeps the exact difference. The rounded difference of an integer and a
  count is an integer again, so the floor only changes its type.
\<close>

definition limitMinus :: "int \<Rightarrow> nat \<Rightarrow> int" where
  "limitMinus m c =
     (if roundDouble (of_int m) = of_int m
      then \<lfloor>roundDouble (of_int m - of_nat c)\<rfloor>
      else m - int c)"

subsection \<open>The methods of the class\<close>

text \<open>The constructor; the default window of 3600 seconds is passed like any other.\<close>

definition newRateLimiter :: "int \<Rightarrow> real \<Rightarrow> RateLimiter" where
  "newRateLimiter m w =
     \<lparr>userLogs = Map.empty, maxRequestsPerHour = m, windowSizeSeconds = w\<rparr>"

text \<open>
  The loop \<open>while (userLog.length > 0 && userLog[0] <= windowStart) userLog.shift()\<close>:
  it removes from the front and stops at the first timestamp inside the window.
\<close>

fun shiftWhile :: "real \<Rightarrow> real list \<Rightarrow> real list" where
  "shiftWhile ws [] = []"
| "shiftWhile ws (t # ts) = (if t \<le> ws then shiftWhile ws ts else t # ts)"

text \<open>\<open>this.userLogs.get(userId) || []\<close>: the stored array, or an empty one.\<close>

definition getLog :: "RateLimiter \<Rightarrow> string \<Rightarrow> real list" where
  "getLog rl userId = (case userLogs rl userId of None \<Rightarrow> [] | Some userLog \<Rightarrow> userLog)"

text \<open>
  \<open>allow\<close> returns the decision and the limiter after the call. A new user gets an empty
  array stored first; the pruned array stays stored also when the request is refused.
\<close>

definition allow :: "RateLimiter \<Rightarrow> real \<Rightarrow> string \<Rightarrow> bool \<times> RateLimiter" where
  "allow rl currentTime userId =
     (let ws = windowStart currentTime (windowSizeSeconds rl);
          userLog = getLog rl userId;
          pruned = shiftWhile ws userLog
      in if int (length pruned) < maxRequestsPerHour rl
         then (True, rl\<lparr>userLogs := (userLogs rl)(userId \<mapsto> pruned @ [currentTime])\<rparr>)
         else (False, rl\<lparr>userLogs := (userLogs rl)(userId \<mapsto> pruned)\<rparr>))"

definition getRemainingRequests :: "RateLimiter \<Rightarrow> real \<Rightarrow> string \<Rightarrow> int" where
  "getRemainingRequests rl currentTime userId =
     (let ws = windowStart currentTime (windowSizeSeconds rl);
          userLog = getLog rl userId;
          filteredLog = filter (\<lambda>timestamp. timestamp > ws) userLog;
          currentCount = length filteredLog
      in max 0 (limitMinus (maxRequestsPerHour rl) currentCount))"

definition getRequestCount :: "RateLimiter \<Rightarrow> real \<Rightarrow> string \<Rightarrow> nat" where
  "getRequestCount rl currentTime userId =
     (let ws = windowStart currentTime (windowSizeSeconds rl);
          userLog = getLog rl userId;
          filteredLog = filter (\<lambda>timestamp. timestamp > ws) userLog
      in length filteredLog)"

text \<open>
  \<open>getStats\<close> calls \<open>getRequestCount\<close> and then \<open>getRemainingRequests\<close>; each of them
  reads the clock itself, hence two clock values.
\<close>

definition getStats :: "RateLimiter \<Rightarrow> real \<Rightarrow> real \<Rightarrow> string \<Rightarrow> RateLimitStats" where
  "getStats rl time1 time2 userId =
     \<lparr>currentCount = getRequestCount rl time1 userId,
      remaining = getRemainingRequests rl time2 userId,
      limit = maxRequestsPerHour rl,
      statsWindowSizeSeconds = windowSizeSeconds rl\<rparr>"

definition resetUser :: "RateLimiter \<Rightarrow> string \<Rightarrow> RateLimiter" where
  "resetUser rl userId = rl\<lparr>userLogs := (userLogs rl)(userId := None)\<rparr>"

definition resetAll :: "RateLimiter \<Rightarrow> RateLimiter" where
  "resetAll rl = rl\<lparr>userLogs := Map.empty\<rparr>"

subsection \<open>Sequences of calls\<close>

text \<open>
  One call of a public method, with the clock values it reads. The three read methods
  build new arrays with \<open>filter\<close> and assign nothing, so the limiter after them is the
  limiter before them.
\<close>

datatype call =
    Allow string real
  | GetRemainingRequests string real
  | GetRequestCount string real
  | GetStats string real real
  | ResetUser string
  | ResetAll

fun exec :: "call \<Rightarrow> RateLimiter \<Rightarrow> RateLimiter" where
  "exec (Allow userId t) rl = snd (allow rl t userId)"
| "exec (GetRemainingRequests userId t) rl = rl"
| "exec (GetRequestCount userId t) rl = rl"
| "exec (GetStats userId t1 t2) rl = rl"
| "exec (ResetUser userId) rl = resetUser rl userId"
| "exec ResetAll rl = resetAll rl"

fun run :: "call list \<Rightarrow> RateLimiter \<Rightarrow> RateLimiter" where
  "run [] rl = rl"
| "run (c # cs) rl = run cs (exec c rl)"

fun isRead :: "call \<Rightarrow> bool" where
  "isRead (GetRemainingRequests userId t) = True"
| "isRead (GetRequestCount userId t) = True"
| "isRead (GetStats userId t1 t2) = True"
| "isRead c = False"

text \<open>The user a call is made for; \<open>resetAll\<close> is made for no single user.\<close>

fun callUser :: "call \<Rightarrow> string option" where
  "callUser (Allow userId t) = Some userId"
| "callUser (GetRemainingRequests userId t) = Some userId"
| "callUser (GetRequestCount userId t) = Some userId"
| "callUser (GetStats userId t1 t2) = Some userId"
| "callUser (ResetUser userId) = Some userId"
| "callUser ResetAll = None"

text \<open>A burst of \<open>allow\<close> calls for one user, one call per clock value, in order.\<close>

fun allowBurst :: "RateLimiter \<Rightarrow> string \<Rightarrow> real list \<Rightarrow> bool list \<times> RateLimiter" where
  "allowBurst rl userId [] = ([], rl)"
| "allowBurst rl userId (t # ts) =
     (let (allowed, rl') = allow rl t userId;
          (rest, rl'') = allowBurst rl' userId ts
      in (allowed # rest, rl''))"
subsection \<open>The HTTP routes\<close>

text \<open>
  The handlers of \<open>routes/rateLimitRoutes.ts\<close> share one limiter. A handler takes the
  limiter, the clock values its calls read, and what the request carries; it returns the
  response and the limiter after the request. The user id of the two \<open>:userId\<close> routes is
  a path parameter, a string that may be missing. \<open>POST /allow\<close> reads the user id from
  \<open>req.body\<close>: the body is \<open>None\<close> when \<open>req.body\<close> is \<open>undefined\<close> or \<open>null\<close>, and otherwise
  \<open>Some v\<close> with \<open>v\<close> the value of its property \<open>userId\<close>, any JavaScript value, \<open>undefined\<close>
  when the body has no such property.
\<close>

datatype jsvalue = JSUndefined | JSNull | JSBoolean bool | JSNumber real | JSString string | JSObject

text \<open>\<open>!userId\<close> is the negation of \<open>truthy\<close>; \<open>NaN\<close>, also falsy, is not a \<^typ>\<open>real\<close>.\<close>

fun truthy :: "jsvalue \<Rightarrow> bool" where
  "truthy JSUndefined = False"
| "truthy JSNull = False"
| "truthy (JSBoolean b) = b"
| "truthy (JSNumber x) = (x \<noteq> 0)"
| "truthy (JSString s) = (s \<noteq> [])"
| "truthy JSObject = True"

fun typeofString :: "jsvalue \<Rightarrow> bool" where
  "typeofString (JSString s) = True"
| "typeofString v = False"

fun stringOf :: "jsvalue \<Rightarrow> string" where
  "stringOf (JSString s) = s"
| "stringOf v = []"

text \<open>
  The JSON bodies: an error with its message; the decision of \<open>/allow\<close> (allowed, userId,
  remaining, currentCount, limit, message); the statistics of a user; the confirmation of
  a reset (message, userId).
\<close>

datatype responseBody =
    ErrorBody string string
  | AllowBody bool string int nat int string
  | StatsBody string RateLimitStats
  | ResetBody string string

record response =
  status :: nat
  body :: responseBody
text \<open>
  \<open>const { userId } = req.body\<close> throws when there is no body; the \<open>catch\<close> block then
  answers 500. Nothing else in the \<open>try\<close> blocks of the three handlers throws.
\<close>

definition routePostAllow ::
  "RateLimiter \<Rightarrow> real \<Rightarrow> real \<Rightarrow> real \<Rightarrow> jsvalue option \<Rightarrow> response \<times> RateLimiter" where
  "routePostAllow rateLimiter t1 t2 t3 reqBody =
     (case reqBody of
        None \<Rightarrow>
          (\<lparr>status = 500,
            body = ErrorBody ''Internal Server Error''
                     ''An error occurred while checking rate limit''\<rparr>,
           rateLimiter)
      | Some userId \<Rightarrow>
          if \<not> truthy userId \<or> \<not> typeofString userId
          then (\<lparr>status = 400,
                 body = ErrorBody ''Bad Request'' ''userId is required and must be a string''\<rparr>,
                rateLimiter)
          else
            (let (allowed, rateLimiter') = allow rateLimiter t1 (stringOf userId);
                 stats = getStats rateLimiter' t2 t3 (stringOf userId)
             in if allowed
                then (\<lparr>status = 200,
                       body = AllowBody True (stringOf userId) (remaining stats)
                                (currentCount stats) (limit stats) ''Request allowed''\<rparr>,
                      rateLimiter')
                else (\<lparr>status = 429,
                       body = AllowBody False (stringOf userId) (remaining stats)
                                (currentCount stats) (limit stats) ''Rate limit exceeded''\<rparr>,
                      rateLimiter')))"

definition routeGetStats ::
  "RateLimiter \<Rightarrow> real \<Rightarrow> real \<Rightarrow> string option \<Rightarrow> response \<times> RateLimiter" where
  "routeGetStats rateLimiter t1 t2 userId =
     (case userId of
        None \<Rightarrow>
          (\<lparr>status = 400, body = ErrorBody ''Bad Request'' ''userId parameter is required''\<rparr>,
           rateLimiter)
      | Some u \<Rightarrow>
          if u = []
          then (\<lparr>status = 400, body = ErrorBody ''Bad Request'' ''userId parameter is required''\<rparr>,
                rateLimiter)
          else (\<lparr>status = 200, body = StatsBody u (getStats rateLimiter t1 t2 u)\<rparr>, rateLimiter))"

definition routeDeleteReset :: "RateLimiter \<Rightarrow> string option \<Rightarrow> response \<times> RateLimiter" where
  "routeDeleteReset rateLimiter userId =
     (case userId of
        None \<Rightarrow>
          (\<lparr>status = 400, body = ErrorBody ''Bad Request'' ''userId parameter is required''\<rparr>,
           rateLimiter)
      | Some u \<Rightarrow>
          if u = []
          then (\<lparr>status = 400, body = ErrorBody ''Bad Request'' ''userId parameter is required''\<rparr>,
                rateLimiter)
          else (\<lparr>status = 200, body = ResetBody (''Rate limit reset for user: '' @ u) u\<rparr>,
                resetUser rateLimiter u))"
subsection \<open>Auxiliary notions for the proofs\<close>

text \<open>
  Every entry of the stored log of a user is live at \<open>now\<close>: later than the window start
  that the methods compute at \<open>now\<close>.
\<close>

definition allLive :: "RateLimiter \<Rightarrow> real \<Rightarrow> string \<Rightarrow> bool" where
  "allLive rl now userId =
     list_all (\<lambda>t. windowStart now (windowSizeSeconds rl) < t) (getLog rl userId)"


text \<open>The invariant behind the bound on the stored logs.\<close>

definition logsBounded :: "RateLimiter \<Rightarrow> bool" where
  "logsBounded rl =
     (\<forall>u userLog. userLogs rl u = Some userLog \<longrightarrow> int (length userLog) \<le> maxRequestsPerHour rl)"

section \<open>Facts of the double arithmetic\<close>




lemma binadeUp_pow: "\<exists>j. binadeUp n p a = p * 2 ^ j"
proof (induction n arbitrary: p)
  case 0
  show ?case by (rule exI [of _ 0]) simp
next
  case (Suc n)
  show ?case
  proof (cases "2 * p \<le> a")
    case True
    from Suc [of "2 * p"] obtain j where "binadeUp n (2 * p) a = 2 * p * 2 ^ j" by blast
    with True have "binadeUp (Suc n) p a = p * 2 ^ Suc j" by simp
    then show ?thesis by blast
  next
    case False
    then have "binadeUp (Suc n) p a = p * 2 ^ 0" by simp
    then show ?thesis by blast
  qed
qed

lemma binadeUp_le: "p \<le> a \<Longrightarrow> binadeUp n p a \<le> a"
  by (induction n arbitrary: p) auto





lemma roundHalfEven_of_int [simp]: "roundHalfEven (of_int m) = m"
  by (simp add: roundHalfEven_def)




lemma of_int_div_ulp:
  "j \<le> e \<Longrightarrow> of_int n / ((2::real) ^ j / 2 ^ e) = of_int (n * 2 ^ (e - j))"
proof -
  assume "j \<le> e"
  then have "(2::real) ^ e = 2 ^ j * 2 ^ (e - j)"
    by (simp flip: power_add)
  then show ?thesis by simp
qed

lemma of_int_div_ulp_top:
  "of_int (2 * m) / ((2::real) ^ Suc e / 2 ^ e) = of_int m"
  by simp

lemma times_of_div: "u \<noteq> 0 \<Longrightarrow> x / u = y \<Longrightarrow> y * u = (x::real)"
  by auto

lemma roundDouble_of_int:
  assumes "\<bar>n\<bar> \<le> 2 ^ 53"
  shows "roundDouble (of_int n) = of_int n"
proof (cases "n = 0")
  case True
  then show ?thesis using roundHalfEven_of_int [of 0] by (simp add: roundDouble_def)
next
  case False
  let ?a = "\<bar>of_int n :: real\<bar>"
  have "1 \<le> \<bar>n\<bar>" using False by linarith
  then have "(1::real) \<le> of_int \<bar>n\<bar>" by (simp only: of_int_1_le_iff)
  then have a1: "1 \<le> ?a" by simp
  have "(of_int \<bar>n\<bar> :: real) \<le> of_int (2 ^ 53)" using assms by (simp only: of_int_le_iff)
  then have a2: "?a \<le> 2 ^ 53" by simp
  obtain j where j: "binadeUp 1023 1 ?a = 2 ^ j"
    using binadeUp_pow [of 1023 1 ?a] by auto
  have le: "binadeUp 1023 1 ?a \<le> ?a" using a1 by (rule binadeUp_le)
  with j a2 have "(2::real) ^ j \<le> 2 ^ 53" by linarith
  then have j53: "j \<le> 53" by (rule power_le_imp_le_exp [rotated]) simp
  have b: "binade ?a = 2 ^ j" using a1 j by (simp add: binade_def)
  have "\<exists>m. of_int n / ((2::real) ^ j / 2 ^ 52) = of_int m"
  proof (cases "j \<le> 52")
    case True
    then have "of_int n / ((2::real) ^ j / 2 ^ 52) = of_int (n * 2 ^ (52 - j))"
      by (rule of_int_div_ulp)
    then show ?thesis by blast
  next
    case no: False
    with j53 have j': "j = Suc 52" by simp
    have "2 ^ 53 \<le> ?a" using le j j' by simp
    with a2 have "?a = 2 ^ 53" by linarith
    then have "(of_int \<bar>n\<bar> :: real) = of_int (2 ^ 53)" by simp
    then have "\<bar>n\<bar> = 2 ^ 53" by (simp only: of_int_eq_iff)
    then have "n = 2 * 2 ^ 52 \<or> n = 2 * (- (2 ^ 52))" by simp linarith
    then obtain m where "n = 2 * m" by blast
    then have "of_int n / ((2::real) ^ j / 2 ^ 52) = of_int m"
      unfolding j' by (simp only: of_int_div_ulp_top)
    then show ?thesis by blast
  qed
  then obtain m where m: "of_int n / ((2::real) ^ j / 2 ^ 52) = of_int m" by blast
  have "(2::real) ^ j / 2 ^ 52 \<noteq> 0" by simp
  then have "of_int m * ((2::real) ^ j / 2 ^ 52) = of_int n"
    using m by (rule times_of_div)
  then show ?thesis
    unfolding roundDouble_def Let_def b m roundHalfEven_of_int .
qed

lemma roundDouble_numeral [simp]:
  "numeral k \<le> (9007199254740992 :: int) \<Longrightarrow> roundDouble (numeral k) = numeral k"
  "numeral k \<le> (9007199254740992 :: int) \<Longrightarrow> roundDouble (- numeral k) = - numeral k"
  "roundDouble 0 = 0"
  "roundDouble 1 = 1"
  "roundDouble (- 1) = - 1"
  using roundDouble_of_int [of "numeral k"] roundDouble_of_int [of "- numeral k"]
    roundDouble_of_int [of 0] roundDouble_of_int [of 1] roundDouble_of_int [of "- 1"]
  by simp_all

lemma limitMinus_zero [simp]: "limitMinus m 0 = m"
  by (simp add: limitMinus_def)



section \<open>Basic facts\<close>

lemma getLog_newRateLimiter [simp]: "getLog (newRateLimiter m w) u = []"
  by (simp add: getLog_def newRateLimiter_def)

lemma getLog_resetUser_same [simp]: "getLog (resetUser rl u) u = []"
  by (simp add: getLog_def resetUser_def)

lemma newRateLimiter_config [simp]:
  "maxRequestsPerHour (newRateLimiter m w) = m"
  "windowSizeSeconds (newRateLimiter m w) = w"
  "userLogs (newRateLimiter m w) u = None"
  by (simp_all add: newRateLimiter_def)

lemma resetUser_config [simp]:
  "maxRequestsPerHour (resetUser rl u) = maxRequestsPerHour rl"
  "windowSizeSeconds (resetUser rl u) = windowSizeSeconds rl"
  by (simp_all add: resetUser_def)

lemma resetAll_config [simp]:
  "maxRequestsPerHour (resetAll rl) = maxRequestsPerHour rl"
  "windowSizeSeconds (resetAll rl) = windowSizeSeconds rl"
  by (simp_all add: resetAll_def)

lemma userLogs_resetUser [simp]:
  "userLogs (resetUser rl u) v = (if v = u then None else userLogs rl v)"
  by (simp add: resetUser_def)

lemma allow_config [simp]:
  "maxRequestsPerHour (snd (allow rl t u)) = maxRequestsPerHour rl"
  "windowSizeSeconds (snd (allow rl t u)) = windowSizeSeconds rl"
  by (simp_all add: allow_def Let_def)

lemma allow_fst:
  "fst (allow rl t u)
     = (int (length (shiftWhile (windowStart t (windowSizeSeconds rl)) (getLog rl u))) < maxRequestsPerHour rl)"
  by (simp add: allow_def Let_def)

lemma allow_getLog_same:
  "getLog (snd (allow rl t u)) u
     = (let pruned = shiftWhile (windowStart t (windowSizeSeconds rl)) (getLog rl u)
        in if int (length pruned) < maxRequestsPerHour rl then pruned @ [t] else pruned)"
  by (simp add: allow_def Let_def getLog_def)

subsection \<open>The prune loop\<close>

lemma shiftWhile_dropWhile: "shiftWhile ws xs = dropWhile (\<lambda>t. t \<le> ws) xs"
  by (induction xs) auto

lemma length_shiftWhile_le: "length (shiftWhile ws xs) \<le> length xs"
  by (induction xs) (auto simp: le_SucI)

lemma shiftWhile_live_head:
  "\<forall>x\<in>set xs. ws < x \<Longrightarrow> shiftWhile ws xs = xs"
  by (cases xs) auto





subsection \<open>Calls and sequences of calls\<close>

lemma exec_config [simp]:
  "maxRequestsPerHour (exec c rl) = maxRequestsPerHour rl"
  "windowSizeSeconds (exec c rl) = windowSizeSeconds rl"
  by (cases c; simp)+

lemma run_config [simp]:
  "maxRequestsPerHour (run cs rl) = maxRequestsPerHour rl"
  "windowSizeSeconds (run cs rl) = windowSizeSeconds rl"
  by (induction cs arbitrary: rl; simp)+

lemma allow_userLogs_other:
  "v \<noteq> u \<Longrightarrow> userLogs (snd (allow rl t u)) v = userLogs rl v"
  by (simp add: allow_def Let_def)

lemma exec_read: "isRead c \<Longrightarrow> exec c rl = rl"
  by (cases c) auto

lemma run_reads: "\<forall>c\<in>set cs. isRead c \<Longrightarrow> run cs rl = rl"
  by (induction cs arbitrary: rl) (auto simp: exec_read)

lemma exec_userLogs_other:
  "callUser c = Some a \<Longrightarrow> a \<noteq> b \<Longrightarrow> userLogs (exec c rl) b = userLogs rl b"
  by (cases c) (auto simp: allow_userLogs_other)

lemma run_userLogs_other:
  "\<forall>c\<in>set cs. callUser c = Some a \<Longrightarrow> a \<noteq> b \<Longrightarrow> userLogs (run cs rl) b = userLogs rl b"
  by (induction cs arbitrary: rl) (auto simp: exec_userLogs_other)

lemma getLog_cong: "userLogs rl u = userLogs rl' u \<Longrightarrow> getLog rl u = getLog rl' u"
  by (simp add: getLog_def)




subsection \<open>The bound on the stored logs\<close>

lemma logsBounded_allow:
  assumes "0 \<le> maxRequestsPerHour rl" "logsBounded rl"
  shows "logsBounded (snd (allow rl t u))"
proof -
  have "int (length (getLog rl u)) \<le> maxRequestsPerHour rl"
    using assms by (auto simp: getLog_def logsBounded_def split: option.splits)
  moreover have "length (shiftWhile (windowStart t (windowSizeSeconds rl)) (getLog rl u)) \<le> length (getLog rl u)"
    by (rule length_shiftWhile_le)
  ultimately show ?thesis
    using assms(2) by (auto simp: logsBounded_def allow_def Let_def)
qed

lemma logsBounded_exec:
  "0 \<le> maxRequestsPerHour rl \<Longrightarrow> logsBounded rl \<Longrightarrow> logsBounded (exec c rl)"
  by (cases c) (auto simp: logsBounded_allow, auto simp: logsBounded_def resetAll_def split: if_splits)

lemma logsBounded_run:
  "0 \<le> maxRequestsPerHour rl \<Longrightarrow> logsBounded rl \<Longrightarrow> logsBounded (run cs rl)"
  by (induction cs arbitrary: rl) (auto simp: logsBounded_exec)

lemma logsBounded_new: "logsBounded (newRateLimiter m w)"
  by (simp add: logsBounded_def)

lemma length_getLog_bounded:
  "logsBounded rl \<Longrightarrow> 0 \<le> maxRequestsPerHour rl \<Longrightarrow> int (length (getLog rl u)) \<le> maxRequestsPerHour rl"
  by (auto simp: logsBounded_def getLog_def split: option.splits)

subsection \<open>Bursts that prune nothing\<close>



lemma allowBurst_config [simp]:
  "maxRequestsPerHour (snd (allowBurst rl u ts)) = maxRequestsPerHour rl"
  "windowSizeSeconds (snd (allowBurst rl u ts)) = windowSizeSeconds rl"
  by (induction ts arbitrary: rl; simp add: case_prod_beta Let_def)+




subsection \<open>Bursts at one clock value, sorted logs\<close>




lemma filter_all_live: "\<forall>t\<in>set ts. ws < t \<Longrightarrow> filter (\<lambda>t. ws < t) ts = ts"
  by (induction ts) auto


lemma sorted_shiftWhile_filter:
  "sorted xs \<Longrightarrow> shiftWhile ws xs = filter (\<lambda>t. ws < t) xs"
proof (induction xs)
  case Nil
  then show ?case by simp
next
  case (Cons x xs)
  show ?case
  proof (cases "x \<le> ws")
    case True
    with Cons show ?thesis by simp
  next
    case False
    with Cons.prems have "\<forall>t\<in>set xs. ws < t" by auto
    then have "filter (\<lambda>t. ws < t) xs = xs" by (rule filter_all_live)
    with False show ?thesis by simp
  qed
qed

lemma counts_agree_on_sorted_log:
  "sorted (getLog rl u) \<Longrightarrow>
     length (shiftWhile (windowStart now (windowSizeSeconds rl)) (getLog rl u)) = getRequestCount rl now u"
  by (simp add: sorted_shiftWhile_filter getRequestCount_def)

lemma allow_keeps_sorted:
  assumes "sorted (getLog rl u)" and "\<forall>x\<in>set (getLog rl u). x \<le> now"
  shows "sorted (getLog (snd (allow rl now u)) u)"
proof -
  let ?pruned = "shiftWhile (windowStart now (windowSizeSeconds rl)) (getLog rl u)"
  have eq: "?pruned = filter (\<lambda>t. windowStart now (windowSizeSeconds rl) < t) (getLog rl u)"
    using assms(1) by (rule sorted_shiftWhile_filter)
  have a: "sorted ?pruned"
    unfolding eq using assms(1) by (rule sorted_wrt_filter)
  have b: "\<forall>x\<in>set ?pruned. x \<le> now"
    unfolding eq using assms(2) by simp
  from a b show ?thesis
    by (simp add: allow_getLog_same Let_def sorted_append)
qed
subsection \<open>Values at the doubles used below\<close>






section \<open>Reset\<close>

text \<open>
  Claim C8. After \<open>resetUser\<close> the user has no stored log, as a user never seen has none:
  the count read is 0, the whole limit remains, and the next \<open>allow\<close> decides and stores
  exactly what it does on a freshly constructed limiter with the same limit and window.
  It admits exactly when the limit is at least 1.
\<close>

theorem resetUser_then_allow_as_new:
  "userLogs (resetUser rl u) u = None
   \<and> getRequestCount (resetUser rl u) now u = 0
   \<and> getRemainingRequests (resetUser rl u) now u = max 0 (maxRequestsPerHour rl)
   \<and> fst (allow (resetUser rl u) now u)
       = fst (allow (newRateLimiter (maxRequestsPerHour rl) (windowSizeSeconds rl)) now u)
   \<and> getLog (snd (allow (resetUser rl u) now u)) u
       = getLog (snd (allow (newRateLimiter (maxRequestsPerHour rl) (windowSizeSeconds rl)) now u)) u
   \<and> fst (allow (resetUser rl u) now u) = (1 \<le> maxRequestsPerHour rl)
   \<and> getLog (snd (allow (resetUser rl u) now u)) u
       = (if 1 \<le> maxRequestsPerHour rl then [now] else [])"
  by (simp add: allow_fst allow_getLog_same getRequestCount_def getRemainingRequests_def)

section \<open>Capacity of a burst\<close>




section \<open>Reads change nothing\<close>

text \<open>
  Claim C7. After any number of calls of \<open>getRequestCount\<close>, \<open>getRemainingRequests\<close> and
  \<open>getStats\<close>, in any order and for any users, the next \<open>allow\<close> returns the same decision
  and leaves the same limiter as it would with no read at all.
\<close>

theorem reads_keep_next_allow:
  "\<forall>c\<in>set reads. isRead c \<Longrightarrow> allow (run reads rl) now u = allow rl now u"
  by (simp add: run_reads)

theorem reads_keep_next_allow_witness:
  "isRead (GetStats ''u'' 3 4) \<and> isRead (GetRequestCount ''u'' 5)
   \<and> allow (run [GetStats ''u'' 3 4, GetRequestCount ''u'' 5] (snd (allow (newRateLimiter 1 10) 2 ''u''))) 6 ''u''
       = allow (snd (allow (newRateLimiter 1 10) 2 ''u'')) 6 ''u''
   \<and> fst (allow (snd (allow (newRateLimiter 1 10) 2 ''u'')) 6 ''u'') = False"
  using reads_keep_next_allow [of "[GetStats ''u'' 3 4, GetRequestCount ''u'' 5]"
      "snd (allow (newRateLimiter 1 10) 2 ''u'')" 6 "''u''"]
  by (simp add: allow_fst allow_getLog_same windowStart_def)

section \<open>Independence of users\<close>

text \<open>
  Claim C9. Calls of \<open>allow\<close>, of the three read methods and of \<open>resetUser\<close> made for a user
  \<open>a\<close> leave the stored log of any other user \<open>b\<close> as it was; so the count, the remaining
  capacity, the statistics and the outcome of \<open>allow\<close> for \<open>b\<close> are what they would be
  without those calls.
\<close>

theorem other_user_unaffected:
  assumes "\<forall>c\<in>set cs. callUser c = Some a" and "a \<noteq> b"
  shows "userLogs (run cs rl) b = userLogs rl b
       \<and> getRequestCount (run cs rl) now b = getRequestCount rl now b
       \<and> getRemainingRequests (run cs rl) now b = getRemainingRequests rl now b
       \<and> getStats (run cs rl) now now' b = getStats rl now now' b
       \<and> fst (allow (run cs rl) now b) = fst (allow rl now b)
       \<and> userLogs (snd (allow (run cs rl) now b)) b = userLogs (snd (allow rl now b)) b"
proof -
  have logs: "userLogs (run cs rl) b = userLogs rl b"
    using assms by (rule run_userLogs_other)
  then have lg: "getLog (run cs rl) b = getLog rl b"
    by (rule getLog_cong)
  show ?thesis
    by (simp add: logs lg getRequestCount_def getRemainingRequests_def getStats_def allow_def Let_def)
qed

theorem other_user_unaffected_witness:
  "callUser (Allow ''a'' 1) = Some ''a'' \<and> callUser (ResetUser ''a'') = Some ''a''
   \<and> callUser (Allow ''a'' 2) = Some ''a'' \<and> ''a'' \<noteq> ''b''
   \<and> userLogs (run [Allow ''a'' 1, ResetUser ''a'', Allow ''a'' 2] (snd (allow (newRateLimiter 1 10) 0 ''b''))) ''b''
       = Some [0]
   \<and> fst (allow (run [Allow ''a'' 1, ResetUser ''a'', Allow ''a'' 2] (snd (allow (newRateLimiter 1 10) 0 ''b''))) 3 ''b'')
       = False"
  using other_user_unaffected [of "[Allow ''a'' 1, ResetUser ''a'', Allow ''a'' 2]" "''a''" "''b''"
      "snd (allow (newRateLimiter 1 10) 0 ''b'')" 3 3]
  by (simp add: allow_def Let_def getLog_def newRateLimiter_def windowStart_def)

section \<open>Stored logs never exceed the limit\<close>

text \<open>
  Claim C10. In every state reached from a newly constructed limiter with a limit \<open>m\<close>
  that is not negative, by any sequence of calls (\<open>allow\<close>, reads, \<open>resetUser\<close>,
  \<open>resetAll\<close>), the log stored for any user has at most \<open>m\<close> entries, and
  \<open>getRequestCount\<close> returns at most \<open>m\<close>.
\<close>

theorem stored_logs_within_limit:
  assumes "0 \<le> m"
  shows "int (length (getLog (run cs (newRateLimiter m w)) u)) \<le> m
       \<and> int (getRequestCount (run cs (newRateLimiter m w)) now u) \<le> m"
proof -
  let ?rl = "run cs (newRateLimiter m w)"
  have "logsBounded ?rl"
    using assms by (simp add: logsBounded_run logsBounded_new)
  then have a: "int (length (getLog ?rl u)) \<le> m"
    using assms length_getLog_bounded [of ?rl u] by simp
  have "getRequestCount ?rl now u \<le> length (getLog ?rl u)"
    by (simp add: getRequestCount_def)
  with a show ?thesis
    by linarith
qed

theorem stored_logs_within_limit_witness:
  "(0 :: int) \<le> 2
   \<and> getLog (run [Allow ''u'' 0, Allow ''u'' 1, Allow ''u'' 2, GetRequestCount ''u'' 2, ResetUser ''v'']
        (newRateLimiter 2 10)) ''u'' = [0, 1]
   \<and> int (length (getLog (run [Allow ''u'' 0, Allow ''u'' 1, Allow ''u'' 2, GetRequestCount ''u'' 2, ResetUser ''v'']
        (newRateLimiter 2 10)) ''u'')) \<le> 2
   \<and> int (getRequestCount (run [Allow ''u'' 0, Allow ''u'' 1, Allow ''u'' 2, GetRequestCount ''u'' 2, ResetUser ''v'']
        (newRateLimiter 2 10)) 2 ''u'') \<le> 2"
  using stored_logs_within_limit [of 2
      "[Allow ''u'' 0, Allow ''u'' 1, Allow ''u'' 2, GetRequestCount ''u'' 2, ResetUser ''v'']" 10 "''u''" 2]
  by (simp add: allow_def Let_def getLog_def newRateLimiter_def resetUser_def windowStart_def
      getRequestCount_def)

section \<open>The window slides\<close>




section \<open>Remaining capacity\<close>




section \<open>Pruning by the write path and by the read path\<close>

text \<open>
  Claim C3, as amended. An entry is live at \<open>now\<close> when it is later than the window start
  that the methods compute at \<open>now\<close>, the double nearest to \<open>now - W\<close>. \<open>allow\<close> prunes the
  stored log from its front before it counts: when the stored log is in non-decreasing
  order and the window start is before \<open>now\<close>, every entry of the log stored after
  \<open>allow\<close> is live. The read methods \<open>getRequestCount\<close>, \<open>getRemainingRequests\<close> and
  \<open>getStats\<close> leave the stored log as it is; they compute their results from a filtered
  copy that holds exactly the live entries, so no result counts a stale entry.
\<close>

theorem allow_prunes_sorted_log_reads_count_live:
  "(sorted (getLog rl u) \<and> windowStart now (windowSizeSeconds rl) < now
      \<longrightarrow> allLive (snd (allow rl now u)) now u)
   \<and> (isRead c \<longrightarrow> exec c rl = rl)
   \<and> getRequestCount rl now u
       = length (filter (\<lambda>t. windowStart now (windowSizeSeconds rl) < t) (getLog rl u))
   \<and> getRemainingRequests rl now u
       = max 0 (limitMinus (maxRequestsPerHour rl) (getRequestCount rl now u))
   \<and> currentCount (getStats rl now now' u) = getRequestCount rl now u
   \<and> remaining (getStats rl now now' u) = getRemainingRequests rl now' u"
proof -
  have "allLive (snd (allow rl now u)) now u"
    if "sorted (getLog rl u)" "windowStart now (windowSizeSeconds rl) < now"
    using that
    by (simp add: allLive_def allow_getLog_same Let_def sorted_shiftWhile_filter list_all_iff)
  then show ?thesis
    by (simp add: exec_read getRequestCount_def getRemainingRequests_def getStats_def)
qed

theorem allow_prunes_sorted_log_reads_count_live_witness:
  "sorted (getLog (run [Allow ''u'' 0, Allow ''u'' 5] (newRateLimiter 5 10)) ''u'')
   \<and> windowStart 12 (windowSizeSeconds (run [Allow ''u'' 0, Allow ''u'' 5] (newRateLimiter 5 10))) < 12
   \<and> isRead (GetRequestCount ''u'' 12)
   \<and> getLog (snd (allow (run [Allow ''u'' 0, Allow ''u'' 5] (newRateLimiter 5 10)) 12 ''u'')) ''u'' = [5, 12]
   \<and> allLive (snd (allow (run [Allow ''u'' 0, Allow ''u'' 5] (newRateLimiter 5 10)) 12 ''u'')) 12 ''u''
   \<and> getRequestCount (run [Allow ''u'' 0, Allow ''u'' 5] (newRateLimiter 5 10)) 12 ''u'' = 1"
  using allow_prunes_sorted_log_reads_count_live
    [of "run [Allow ''u'' 0, Allow ''u'' 5] (newRateLimiter 5 10)" "''u''" 12 "GetRequestCount ''u'' 12" 12]
  by (simp add: allow_getLog_same windowStart_def)

text \<open>
  The claim as stated fails for the reads: after \<open>getRequestCount\<close> at time 100, with a
  window of 10, the entry recorded at time 0 is still stored, although the count returned
  is 0.
\<close>

theorem read_leaves_stale_entry_counterexample:
  "getRequestCount (snd (allow (newRateLimiter 5 10) 0 ''u'')) 100 ''u'' = 0
   \<and> getLog (exec (GetRequestCount ''u'' 100) (snd (allow (newRateLimiter 5 10) 0 ''u''))) ''u'' = [0]
   \<and> \<not> allLive (exec (GetRequestCount ''u'' 100) (snd (allow (newRateLimiter 5 10) 0 ''u''))) 100 ''u''"
  by (simp add: allLive_def allow_getLog_same getRequestCount_def windowStart_def)

text \<open>
  Claim C4. \<open>getRequestCount\<close> should return the count that the next \<open>allow\<close> sees after its
  prune step, also on a log that is not sorted because the clock went backwards. With a
  limit of 2 and a window of 60, two admitted calls at clock values 100 and then 50 store
  the log \<open>[100, 50]\<close>. At time 155 the read path counts 1 live entry and reports 1
  remaining request, while the prune loop of \<open>allow\<close> stops at the live head 100, keeps the
  stale 50, counts 2 and refuses the request.
\<close>

theorem read_and_write_counts_differ_after_clock_regression:
  "getLog (run [Allow ''u'' 100, Allow ''u'' 50] (newRateLimiter 2 60)) ''u'' = [100, 50]
   \<and> getRequestCount (run [Allow ''u'' 100, Allow ''u'' 50] (newRateLimiter 2 60)) 155 ''u'' = 1
   \<and> getRemainingRequests (run [Allow ''u'' 100, Allow ''u'' 50] (newRateLimiter 2 60)) 155 ''u'' = 1
   \<and> length (shiftWhile (155 - windowSizeSeconds (newRateLimiter 2 60))
        (getLog (run [Allow ''u'' 100, Allow ''u'' 50] (newRateLimiter 2 60)) ''u'')) = 2
   \<and> fst (allow (run [Allow ''u'' 100, Allow ''u'' 50] (newRateLimiter 2 60)) 155 ''u'') = False"
  by (simp add: allow_getLog_same allow_fst getRequestCount_def getRemainingRequests_def
      windowStart_def limitMinus_def)

section \<open>Validation of the user id\<close>

text \<open>
  Claim C5, as amended. The user id is validated by the route handlers, before they call
  the limiter. A request whose user id is missing or empty is answered by every route
  with status 400 (Bad Request), and a \<open>POST /allow\<close> with no body at all with status 500;
  in each case the limiter is left exactly as it was: no log is created or changed for
  any key. Status 429 is the answer of \<open>POST /allow\<close> exactly when the user id is a
  non-empty string and \<open>allow\<close> refuses, so these rejections are distinct from a
  rate-limit rejection. The method \<open>allow\<close> itself validates nothing.
\<close>

theorem invalid_identity_rejected_by_routes:
  "(userId = JSUndefined \<or> userId = JSNull \<or> userId = JSString [] \<longrightarrow>
      routePostAllow rl t1 t2 t3 (Some userId)
        = (\<lparr>status = 400,
             body = ErrorBody ''Bad Request'' ''userId is required and must be a string''\<rparr>, rl))
   \<and> routePostAllow rl t1 t2 t3 None
        = (\<lparr>status = 500,
             body = ErrorBody ''Internal Server Error''
                      ''An error occurred while checking rate limit''\<rparr>, rl)
   \<and> (param = None \<or> param = Some [] \<longrightarrow>
        routeGetStats rl t1 t2 param
          = (\<lparr>status = 400, body = ErrorBody ''Bad Request'' ''userId parameter is required''\<rparr>, rl)
        \<and> routeDeleteReset rl param
          = (\<lparr>status = 400, body = ErrorBody ''Bad Request'' ''userId parameter is required''\<rparr>, rl))
   \<and> (status (fst (routePostAllow rl t1 t2 t3 reqBody)) = 429
        \<longleftrightarrow> (\<exists>v. reqBody = Some v \<and> truthy v \<and> typeofString v
                  \<and> \<not> fst (allow rl t1 (stringOf v))))"
  by (cases reqBody)
    (auto simp add: routePostAllow_def routeGetStats_def routeDeleteReset_def Let_def
      case_prod_beta)

theorem invalid_identity_rejected_by_routes_witness:
  "routePostAllow (snd (allow (newRateLimiter 1 10) 0 ''u'')) 1 2 3 (Some (JSString []))
     = (\<lparr>status = 400,
          body = ErrorBody ''Bad Request'' ''userId is required and must be a string''\<rparr>,
        snd (allow (newRateLimiter 1 10) 0 ''u''))
   \<and> routeGetStats (snd (allow (newRateLimiter 1 10) 0 ''u'')) 1 2 None
     = (\<lparr>status = 400, body = ErrorBody ''Bad Request'' ''userId parameter is required''\<rparr>,
        snd (allow (newRateLimiter 1 10) 0 ''u''))
   \<and> status (fst (routePostAllow (snd (allow (newRateLimiter 1 10) 0 ''u'')) 1 2 3
        (Some (JSString ''u'')))) = 429"
  using invalid_identity_rejected_by_routes
    [of "JSString []" "snd (allow (newRateLimiter 1 10) 0 ''u'')" 1 2 3 None
      "Some (JSString ''u'')"]
  by (simp add: allow_fst allow_getLog_same windowStart_def)

text \<open>
  The claim as stated fails for the limiter called directly: \<open>allow\<close> takes the empty
  string as a key like any other. With a limit of 1 the first call for it is admitted
  and stores a log under the empty key; the second is refused as a rate-limit rejection.
\<close>

theorem allow_empty_identity_counterexample:
  "fst (allow (newRateLimiter 1 10) 0 []) = True
   \<and> userLogs (snd (allow (newRateLimiter 1 10) 0 [])) [] = Some [0]
   \<and> fst (allow (snd (allow (newRateLimiter 1 10) 0 [])) 1 []) = False"
  by (simp add: allow_def Let_def getLog_def newRateLimiter_def windowStart_def)

end
